theory Spec2Isabelle
  imports Complex_Main "HOL-Library.AList" "HOL-Library.List_Lexorder" "HOL-Library.Char_ord"
begin

section \<open>Python values used by the scripts\<close>

text \<open>
  The scripts compute with Python floats. The embedding idealises them as exact reals:
  every statement below about a sum, a product or a quotient is a statement of exact
  arithmetic, and says nothing about rounding.

  A Python \<open>dict\<close> keeps its keys in insertion order; it is modelled as an association
  list. \<open>d[k] = v\<close> overwrites the value of \<open>k\<close> where it stands and appends a new key at
  the end, which is \<open>AList.update\<close>; \<open>d.get(k, default)\<close> is \<open>dict_get\<close>.
\<close>

datatype error = IndexError | KeyError | ZeroDivisionError

type_synonym ('k, 'v) dict = "('k \<times> 'v) list"

definition dict_get :: "('k, 'v) dict \<Rightarrow> 'k \<Rightarrow> 'v \<Rightarrow> 'v" where
  "dict_get d k dflt = (case map_of d k of None \<Rightarrow> dflt | Some v \<Rightarrow> v)"

definition dict_set :: "('k, 'v) dict \<Rightarrow> 'k \<Rightarrow> 'v \<Rightarrow> ('k, 'v) dict" where
  "dict_set d k v = AList.update k v d"

section \<open>005\_ElimVariables.py\<close>

subsection \<open>class Factor\<close>

text \<open>
  \<open>Factor(variables, cpt)\<close>: a tuple of variable names and a dict from tuples of values
  (one component per variable, in the order of \<open>variables\<close>) to weights.
\<close>

record ('v, 'a) Factor =
  variables :: "'v list"
  cpt :: "('a list, real) dict"

subsection \<open>multiply\_factors\<close>

text \<open>
  \<open>var_domains[var].add(assignment[i])\<close> for every \<open>i, var in enumerate(variables)\<close>:
  the walk over the scope reads the assignment in step, and \<open>assignment[i]\<close> raises
  IndexError when the key is shorter than the scope. Each Python set is represented by
  the sequence of the values added to it.
\<close>

fun add_assignment ::
  "'v list \<Rightarrow> 'a list \<Rightarrow> ('v \<Rightarrow> 'a list) \<Rightarrow> error + ('v \<Rightarrow> 'a list)" where
  "add_assignment [] assignment var_domains = Inr var_domains"
| "add_assignment (var # vars) assignment var_domains =
     (case assignment of
        [] \<Rightarrow> Inl IndexError
      | x # rest \<Rightarrow> add_assignment vars rest (var_domains(var := var_domains var @ [x])))"

fun add_assignments ::
  "'v list \<Rightarrow> 'a list list \<Rightarrow> ('v \<Rightarrow> 'a list) \<Rightarrow> error + ('v \<Rightarrow> 'a list)" where
  "add_assignments vars [] var_domains = Inr var_domains"
| "add_assignments vars (assignment # more_keys) var_domains =
     (case add_assignment vars assignment var_domains of
        Inl e \<Rightarrow> Inl e
      | Inr var_domains' \<Rightarrow> add_assignments vars more_keys var_domains')"

text \<open>\<open>tuple(assignment_dict[var] for var in variables)\<close>; a missing name raises KeyError.\<close>

fun project :: "('v, 'a) dict \<Rightarrow> 'v list \<Rightarrow> error + 'a list" where
  "project assignment_dict [] = Inr []"
| "project assignment_dict (var # vars) =
     (case map_of assignment_dict var of
        None \<Rightarrow> Inl KeyError
      | Some x \<Rightarrow>
          (case project assignment_dict vars of
             Inl e \<Rightarrow> Inl e
           | Inr xs \<Rightarrow> Inr (x # xs)))"

text \<open>\<open>{var: val for var, val in zip(new_vars, assignment)}\<close>\<close>

definition dict_of_pairs :: "('k \<times> 'v) list \<Rightarrow> ('k, 'v) dict" where
  "dict_of_pairs ps = fold (\<lambda>(k, v) d. dict_set d k v) ps []"

text \<open>The loop \<open>for assignment in assignments\<close> that fills \<open>new_cpt\<close>.\<close>

fun fill_cpt ::
  "('v, 'a) Factor \<Rightarrow> ('v, 'a) Factor \<Rightarrow> 'v list \<Rightarrow> 'a list list \<Rightarrow>
   ('a list, real) dict \<Rightarrow> error + ('a list, real) dict" where
  "fill_cpt factor1 factor2 new_vars [] new_cpt = Inr new_cpt"
| "fill_cpt factor1 factor2 new_vars (assignment # more_assignments) new_cpt =
     (let assignment_dict = dict_of_pairs (zip new_vars assignment) in
      case project assignment_dict (variables factor1) of
        Inl e \<Rightarrow> Inl e
      | Inr key1 \<Rightarrow>
          (case project assignment_dict (variables factor2) of
             Inl e \<Rightarrow> Inl e
           | Inr key2 \<Rightarrow>
               fill_cpt factor1 factor2 new_vars more_assignments
                 (dict_set new_cpt assignment
                    (dict_get (cpt factor1) key1 0 * dict_get (cpt factor2) key2 0))))"

text \<open>
  Python does not fix the order in which a set is iterated; in CPython it is a function
  of the sequence of insertions (and of the hashes). The model takes that function as
  the parameter \<open>iter\<close>: it maps the sequence of values added to a set to the sequence in
  which the set is iterated. \<open>set_iteration iter\<close> says that \<open>iter\<close> yields every element
  added, once. \<open>itertools.product\<close> is \<open>product_lists\<close>: the rightmost component advances
  fastest.
\<close>

definition set_iteration :: "('a list \<Rightarrow> 'a list) \<Rightarrow> bool" where
  "set_iteration iter \<longleftrightarrow> (\<forall>h. set (iter h) = set h \<and> distinct (iter h))"

definition multiply_factors ::
  "('a list \<Rightarrow> 'a list) \<Rightarrow> ('v::linorder, 'a) Factor \<Rightarrow> ('v, 'a) Factor \<Rightarrow>
   error + ('v, 'a) Factor" where
  "multiply_factors iter factor1 factor2 =
     (let new_vars = sorted_list_of_set (set (variables factor1) \<union> set (variables factor2)) in
      case add_assignments (variables factor1) (map fst (cpt factor1)) (\<lambda>var. []) of
        Inl e \<Rightarrow> Inl e
      | Inr var_domains1 \<Rightarrow>
          (case add_assignments (variables factor2) (map fst (cpt factor2)) var_domains1 of
             Inl e \<Rightarrow> Inl e
           | Inr var_domains \<Rightarrow>
               (let assignments = product_lists (map (\<lambda>var. iter (var_domains var)) new_vars) in
                case fill_cpt factor1 factor2 new_vars assignments [] of
                  Inl e \<Rightarrow> Inl e
                | Inr new_cpt \<Rightarrow> Inr \<lparr>variables = new_vars, cpt = new_cpt\<rparr>)))"

subsection \<open>sum\_out\<close>

text \<open>\<open>variables.index(variable)\<close>, used only where the variable is in the tuple.\<close>

definition index_of :: "'v list \<Rightarrow> 'v \<Rightarrow> nat" where
  "index_of vars variable = length (takeWhile (\<lambda>v. v \<noteq> variable) vars)"

text \<open>\<open>assignment[:var_index] + assignment[var_index+1:]\<close>\<close>

definition drop_component :: "nat \<Rightarrow> 'a list \<Rightarrow> 'a list" where
  "drop_component var_index assignment = take var_index assignment @ drop (Suc var_index) assignment"

fun sum_out_loop ::
  "nat \<Rightarrow> ('a list, real) dict \<Rightarrow> ('a list, real) dict \<Rightarrow> ('a list, real) dict" where
  "sum_out_loop var_index [] new_cpt = new_cpt"
| "sum_out_loop var_index ((assignment, p) # more_items) new_cpt =
     (let new_key = drop_component var_index assignment in
      sum_out_loop var_index more_items
        (dict_set new_cpt new_key (dict_get new_cpt new_key 0 + p)))"

definition sum_out :: "('v, 'a) Factor \<Rightarrow> 'v \<Rightarrow> ('v, 'a) Factor" where
  "sum_out factor variable =
     (if variable \<notin> set (variables factor) then factor
      else
        let new_vars = filter (\<lambda>v. v \<noteq> variable) (variables factor);
            var_index = index_of (variables factor) variable
        in \<lparr>variables = new_vars, cpt = sum_out_loop var_index (cpt factor) []\<rparr>)"

subsection \<open>VariableEliminationSolver.infer\<close>

text \<open>
  Step 1, the evidence. \<open>var in evidence and evidence[var] != assignment[i]\<close> reads
  \<open>assignment[i]\<close> only for an evidence variable, and the scan of a key stops at the
  first mismatch.
\<close>

fun is_consistent :: "('v \<rightharpoonup> 'a) \<Rightarrow> 'v list \<Rightarrow> 'a list \<Rightarrow> error + bool" where
  "is_consistent evidence [] assignment = Inr True"
| "is_consistent evidence (var # vars) assignment =
     (case evidence var of
        None \<Rightarrow> is_consistent evidence vars (tl assignment)
      | Some val \<Rightarrow>
          (case assignment of
             [] \<Rightarrow> Inl IndexError
           | x # rest \<Rightarrow>
               if val \<noteq> x then Inr False else is_consistent evidence vars rest))"

fun reduce_cpt ::
  "('v \<rightharpoonup> 'a) \<Rightarrow> 'v list \<Rightarrow> ('a list, real) dict \<Rightarrow> ('a list, real) dict \<Rightarrow>
   error + ('a list, real) dict" where
  "reduce_cpt evidence vars [] new_cpt = Inr new_cpt"
| "reduce_cpt evidence vars ((assignment, prob) # more_items) new_cpt =
     (case is_consistent evidence vars assignment of
        Inl e \<Rightarrow> Inl e
      | Inr True \<Rightarrow> reduce_cpt evidence vars more_items (dict_set new_cpt assignment prob)
      | Inr False \<Rightarrow> reduce_cpt evidence vars more_items new_cpt)"

definition reduce_factor :: "('v \<rightharpoonup> 'a) \<Rightarrow> ('v, 'a) Factor \<Rightarrow> error + ('v, 'a) Factor" where
  "reduce_factor evidence f =
     (case reduce_cpt evidence (variables f) (cpt f) [] of
        Inl e \<Rightarrow> Inl e
      | Inr new_cpt \<Rightarrow> Inr \<lparr>variables = variables f, cpt = new_cpt\<rparr>)"

fun apply_evidence ::
  "('v \<rightharpoonup> 'a) \<Rightarrow> ('v, 'a) Factor list \<Rightarrow> error + ('v, 'a) Factor list" where
  "apply_evidence evidence [] = Inr []"
| "apply_evidence evidence (f # fs) =
     (case reduce_factor evidence f of
        Inl e \<Rightarrow> Inl e
      | Inr g \<Rightarrow>
          (case apply_evidence evidence fs of
             Inl e \<Rightarrow> Inl e
           | Inr working_factors \<Rightarrow> Inr (g # working_factors)))"

text \<open>
  \<open>product = fs[0]; for i in range(1, len(fs)): product = multiply_factors(product, fs[i])\<close>.
  \<open>fs[0]\<close> raises IndexError on the empty list.
\<close>

fun multiply_from ::
  "('a list \<Rightarrow> 'a list) \<Rightarrow> ('v::linorder, 'a) Factor \<Rightarrow> ('v, 'a) Factor list \<Rightarrow>
   error + ('v, 'a) Factor" where
  "multiply_from iter product_factor [] = Inr product_factor"
| "multiply_from iter product_factor (f # fs) =
     (case multiply_factors iter product_factor f of
        Inl e \<Rightarrow> Inl e
      | Inr p \<Rightarrow> multiply_from iter p fs)"

definition multiply_all ::
  "('a list \<Rightarrow> 'a list) \<Rightarrow> ('v::linorder, 'a) Factor list \<Rightarrow> error + ('v, 'a) Factor" where
  "multiply_all iter fs =
     (case fs of [] \<Rightarrow> Inl IndexError | f # rest \<Rightarrow> multiply_from iter f rest)"

text \<open>Step 2, the loop \<open>for var_to_eliminate in elimination_order\<close>.\<close>

fun eliminate ::
  "('a list \<Rightarrow> 'a list) \<Rightarrow> 'v::linorder list \<Rightarrow> ('v, 'a) Factor list \<Rightarrow>
   error + ('v, 'a) Factor list" where
  "eliminate iter [] working_factors = Inr working_factors"
| "eliminate iter (var_to_eliminate # order) working_factors =
     (let factors_with_var =
            filter (\<lambda>f. var_to_eliminate \<in> set (variables f)) working_factors;
          working_factors' =
            filter (\<lambda>f. var_to_eliminate \<notin> set (variables f)) working_factors
      in case multiply_all iter factors_with_var of
           Inl e \<Rightarrow> Inl e
         | Inr product_factor \<Rightarrow>
             eliminate iter order
               (working_factors' @ [sum_out product_factor var_to_eliminate]))"

text \<open>
  Step 3 up to \<open>final_factor\<close>: evidence, elimination, product of what remains.
\<close>

definition final_factor ::
  "('a list \<Rightarrow> 'a list) \<Rightarrow> ('v::linorder, 'a) Factor list \<Rightarrow> ('v \<rightharpoonup> 'a) \<Rightarrow> 'v list \<Rightarrow>
   error + ('v, 'a) Factor" where
  "final_factor iter factors evidence elimination_order =
     (case apply_evidence evidence factors of
        Inl e \<Rightarrow> Inl e
      | Inr working_factors \<Rightarrow>
          (case eliminate iter elimination_order working_factors of
             Inl e \<Rightarrow> Inl e
           | Inr remaining \<Rightarrow> multiply_all iter remaining))"

text \<open>
  \<open>{key[0]: val / total for key, val in final_factor.cpt.items()}\<close>: for each item the
  key expression is evaluated first, as Python does from version 3.8 on (IndexError on
  the empty tuple), then the quotient (ZeroDivisionError when \<open>total\<close> is zero); a key
  that occurs again overwrites the value.
\<close>

fun normalise ::
  "real \<Rightarrow> ('a list, real) dict \<Rightarrow> ('a, real) dict \<Rightarrow> error + ('a, real) dict" where
  "normalise total' [] result = Inr result"
| "normalise total' ((key, val) # more_items) result =
     (case key of
        [] \<Rightarrow> Inl IndexError
      | k0 # rest \<Rightarrow>
          if total' = 0 then Inl ZeroDivisionError
          else normalise total' more_items (dict_set result k0 (val / total')))"

text \<open>The source never reads \<open>query_var\<close>; the parameter is kept as it is declared.\<close>

definition infer ::
  "('a list \<Rightarrow> 'a list) \<Rightarrow> ('v::linorder, 'a) Factor list \<Rightarrow> 'v \<Rightarrow> ('v \<rightharpoonup> 'a) \<Rightarrow> 'v list \<Rightarrow>
   error + ('a, real) dict" where
  "infer iter factors query_var evidence elimination_order =
     (case final_factor iter factors evidence elimination_order of
        Inl e \<Rightarrow> Inl e
      | Inr final \<Rightarrow> normalise (sum_list (map snd (cpt final))) (cpt final) [])"

subsection \<open>The model and the call of the script\<close>

text \<open>The value \<open>'D\'ebil'\<close> of the script, with its second character U+00E9.\<close>

definition Debil :: string where
  "Debil = [CHR ''D'', CHR 0xE9, CHR ''b'', CHR ''i'', CHR ''l'']"

definition factors :: "(string, string) Factor list" where
  "factors =
     [\<lparr>variables = [''D''], cpt = [([''Alta''], 0.6), ([''Baja''], 0.4)]\<rparr>,
      \<lparr>variables = [''I''], cpt = [([''Alta''], 0.7), ([''Baja''], 0.3)]\<rparr>,
      \<lparr>variables = [''I'', ''L''],
       cpt = [([''Alta'', ''Fuerte''], 0.8), ([''Alta'', Debil], 0.2),
              ([''Baja'', ''Fuerte''], 0.3), ([''Baja'', Debil], 0.7)]\<rparr>,
      \<lparr>variables = [''D'', ''I'', ''G''],
       cpt = [([''Alta'', ''Alta'', ''A''], 0.3), ([''Alta'', ''Alta'', ''B''], 0.7),
              ([''Alta'', ''Baja'', ''A''], 0.05), ([''Alta'', ''Baja'', ''B''], 0.95),
              ([''Baja'', ''Alta'', ''A''], 0.9), ([''Baja'', ''Alta'', ''B''], 0.1),
              ([''Baja'', ''Baja'', ''A''], 0.5), ([''Baja'', ''Baja'', ''B''], 0.5)]\<rparr>]"

subsection \<open>Iteration orders and inputs used in the statements\<close>

text \<open>
  CPython iterates a set by the slots of its hash table. Elements that fall into the same
  slot are met in the order of their first insertion: so it is for the integers 0 and 8
  in a fresh set (8 slots, both hash to slot 0), where \<open>list({8, 0})\<close> is \<open>[8, 0]\<close> and
  \<open>list({0, 8})\<close> is \<open>[0, 8]\<close>. Elements in different slots are met in slot order,
  whatever the insertions were; \<open>sorted_order\<close> is such an order.
\<close>

definition insertion_order :: "'a list \<Rightarrow> 'a list" where
  "insertion_order h = rev (remdups (rev h))"

definition sorted_order :: "'a::linorder list \<Rightarrow> 'a list" where
  "sorted_order h = sort (remdups h)"

text \<open>
  A network \<open>A \<rightarrow> Z \<rightarrow> B\<close> with an independent \<open>E\<close>, every variable with the values 0 and 8;
  the table of \<open>B\<close> lists the values of \<open>Z\<close> in the order 8, 0.
\<close>

definition order_model :: "(string, nat) Factor list" where
  "order_model =
     [\<lparr>variables = [''A''], cpt = [([0], 0.5), ([8], 0.5)]\<rparr>,
      \<lparr>variables = [''A'', ''Z''],
       cpt = [([0, 0], 0.9), ([0, 8], 0.1), ([8, 0], 0.2), ([8, 8], 0.8)]\<rparr>,
      \<lparr>variables = [''B'', ''Z''],
       cpt = [([0, 8], 0.3), ([8, 8], 0.7), ([0, 0], 0.6), ([8, 0], 0.4)]\<rparr>,
      \<lparr>variables = [''E''], cpt = [([0], 0.5), ([8], 0.5)]\<rparr>]"

text \<open>A network \<open>A \<rightarrow> B\<close> in which \<open>B = t\<close> has probability zero.\<close>

definition zero_model :: "(string, string) Factor list" where
  "zero_model =
     [\<lparr>variables = [''A''], cpt = [([''t''], 0.5), ([''f''], 0.5)]\<rparr>,
      \<lparr>variables = [''A'', ''B''],
       cpt = [([''t'', ''t''], 0), ([''t'', ''f''], 1), ([''f'', ''t''], 0), ([''f'', ''f''], 1)]\<rparr>]"

section \<open>004\_InterEnumeracion.py\<close>

text \<open>\<open>d[k]\<close>, which raises KeyError for a missing key.\<close>

definition lookup :: "('k, 'v) dict \<Rightarrow> 'k \<Rightarrow> error + 'v" where
  "lookup d k = (case map_of d k of None \<Rightarrow> Inl KeyError | Some v \<Rightarrow> Inr v)"

text \<open>
  An entry of \<open>cpts\<close> is a dict that holds the list \<open>'valores'\<close> and, for a root node, one
  probability per value, or, for a node with parents, one dict per tuple of parent
  values. The three kinds of keys are kept apart as the fields of a record.
\<close>

record tabla =
  valores :: "string list"
  raiz :: "(string, real) dict"
  condicional :: "(string list, (string, real) dict) dict"

record estructura_red =
  nodos :: "string list"
  padres :: "(string, string list) dict"
  cpts :: "(string, tabla) dict"

text \<open>\<open>tuple(evidencia[p] for p in padres_de_var)\<close>\<close>

fun configuracion :: "(string \<rightharpoonup> string) \<Rightarrow> string list \<Rightarrow> error + string list" where
  "configuracion evidencia [] = Inr []"
| "configuracion evidencia (p # ps) =
     (case evidencia p of
        None \<Rightarrow> Inl KeyError
      | Some x \<Rightarrow>
          (case configuracion evidencia ps of
             Inl e \<Rightarrow> Inl e
           | Inr xs \<Rightarrow> Inr (x # xs)))"

definition obtener_probabilidad ::
  "estructura_red \<Rightarrow> string \<Rightarrow> string \<Rightarrow> (string \<rightharpoonup> string) \<Rightarrow> error + real" where
  "obtener_probabilidad red variable valor evidencia =
     (case lookup (padres red) variable of
        Inl e \<Rightarrow> Inl e
      | Inr padres_de_var \<Rightarrow>
          if padres_de_var = [] then
            (case lookup (cpts red) variable of
               Inl e \<Rightarrow> Inl e
             | Inr t \<Rightarrow> lookup (raiz t) valor)
          else
            (case configuracion evidencia padres_de_var of
               Inl e \<Rightarrow> Inl e
             | Inr configuracion_padres \<Rightarrow>
                 (case lookup (cpts red) variable of
                    Inl e \<Rightarrow> Inl e
                  | Inr t \<Rightarrow>
                      (case lookup (condicional t) configuracion_padres of
                         Inl e \<Rightarrow> Inl e
                       | Inr fila \<Rightarrow> lookup fila valor))))"

text \<open>
  \<open>_enumerar_todo\<close>; \<open>sumar_valores\<close> is its loop \<open>for valor in self.cpts[primera]['valores']\<close>.
\<close>

fun enumerar_todo ::
  "estructura_red \<Rightarrow> string list \<Rightarrow> (string \<rightharpoonup> string) \<Rightarrow> error + real"
and sumar_valores ::
  "estructura_red \<Rightarrow> string \<Rightarrow> string list \<Rightarrow> string list \<Rightarrow> (string \<rightharpoonup> string) \<Rightarrow> real \<Rightarrow>
   error + real" where
  "enumerar_todo red [] evidencia = Inr 1"
| "enumerar_todo red (primera # resto) evidencia =
     (case evidencia primera of
        Some v \<Rightarrow>
          (case obtener_probabilidad red primera v evidencia of
             Inl e \<Rightarrow> Inl e
           | Inr prob \<Rightarrow>
               (case enumerar_todo red resto evidencia of
                  Inl e \<Rightarrow> Inl e
                | Inr r \<Rightarrow> Inr (prob * r)))
      | None \<Rightarrow>
          (case lookup (cpts red) primera of
             Inl e \<Rightarrow> Inl e
           | Inr t \<Rightarrow> sumar_valores red primera resto (valores t) evidencia 0))"
| "sumar_valores red primera resto [] evidencia suma_ponderada = Inr suma_ponderada"
| "sumar_valores red primera resto (valor # mas) evidencia suma_ponderada =
     (let evidencia_extendida = evidencia(primera \<mapsto> valor) in
      case obtener_probabilidad red primera valor evidencia_extendida of
        Inl e \<Rightarrow> Inl e
      | Inr prob \<Rightarrow>
          (case enumerar_todo red resto evidencia_extendida of
             Inl e \<Rightarrow> Inl e
           | Inr r \<Rightarrow> sumar_valores red primera resto mas evidencia (suma_ponderada + prob * r)))"

text \<open>\<open>consultar\<close>: the loop over the values of the query variable, then the division.\<close>

fun distribucion ::
  "estructura_red \<Rightarrow> string \<Rightarrow> string list \<Rightarrow> (string \<rightharpoonup> string) \<Rightarrow> (string, real) dict \<Rightarrow>
   error + (string, real) dict" where
  "distribucion red var_consulta [] evidencia distribucion_q = Inr distribucion_q"
| "distribucion red var_consulta (valor_consulta # mas) evidencia distribucion_q =
     (case enumerar_todo red (nodos red) (evidencia(var_consulta \<mapsto> valor_consulta)) of
        Inl e \<Rightarrow> Inl e
      | Inr p \<Rightarrow>
          distribucion red var_consulta mas evidencia (dict_set distribucion_q valor_consulta p))"

fun dividir :: "real \<Rightarrow> (string, real) dict \<Rightarrow> (string, real) dict \<Rightarrow> error + (string, real) dict" where
  "dividir total' [] resultado = Inr resultado"
| "dividir total' ((valor, prob) # mas) resultado =
     (if total' = 0 then Inl ZeroDivisionError
      else dividir total' mas (dict_set resultado valor (prob / total')))"

definition consultar ::
  "estructura_red \<Rightarrow> string \<Rightarrow> (string \<rightharpoonup> string) \<Rightarrow> error + (string, real) dict" where
  "consultar red var_consulta evidencia =
     (case lookup (cpts red) var_consulta of
        Inl e \<Rightarrow> Inl e
      | Inr t \<Rightarrow>
          (case distribucion red var_consulta (valores t) evidencia [] of
             Inl e \<Rightarrow> Inl e
           | Inr distribucion_q \<Rightarrow>
               dividir (sum_list (map snd distribucion_q)) distribucion_q []))"

definition ESTRUCTURA_ALARMA :: estructura_red where
  "ESTRUCTURA_ALARMA =
     \<lparr>nodos = [''Robo'', ''Alarma'', ''JuanLlama''],
      padres = [(''Robo'', []), (''Alarma'', [''Robo'']), (''JuanLlama'', [''Alarma''])],
      cpts =
        [(''Robo'',
          \<lparr>valores = [''Si'', ''No''],
           raiz = [(''Si'', 0.001), (''No'', 0.999)],
           condicional = []\<rparr>),
         (''Alarma'',
          \<lparr>valores = [''Si'', ''No''],
           raiz = [],
           condicional = [([''Si''], [(''Si'', 0.95), (''No'', 0.05)]),
                          ([''No''], [(''Si'', 0.01), (''No'', 0.99)])]\<rparr>),
         (''JuanLlama'',
          \<lparr>valores = [''Si'', ''No''],
           raiz = [],
           condicional = [([''Si''], [(''Si'', 0.90), (''No'', 0.10)]),
                          ([''No''], [(''Si'', 0.05), (''No'', 0.95)])]\<rparr>)]\<rparr>"

section \<open>Notions used in the statements\<close>

text \<open>
  An assignment agrees with the evidence when, at every position of the scope that holds
  an evidence variable, it has the observed value.
\<close>

definition agrees :: "('v \<rightharpoonup> 'a) \<Rightarrow> 'v list \<Rightarrow> 'a list \<Rightarrow> bool" where
  "agrees evidence vars assignment \<longleftrightarrow>
     (\<forall>(var, x) \<in> set (zip vars assignment). \<forall>val. evidence var = Some val \<longrightarrow> x = val)"

text \<open>
  The values observed for a variable in the table of a factor, and the projection of an
  assignment over a scope onto some of its variables.
\<close>

definition observed :: "('v, 'a) Factor \<Rightarrow> 'v \<Rightarrow> 'a set" where
  "observed f var = {x. \<exists>k\<in>fst ` set (cpt f). (var, x) \<in> set (zip (variables f) k)}"

definition projection :: "'v list \<Rightarrow> 'a list \<Rightarrow> 'v list \<Rightarrow> 'a list" where
  "projection scope assignment vars = map (\<lambda>var. assignment ! index_of scope var) vars"

text \<open>Every key of the table has a component for every variable of the scope.\<close>

definition has_arity :: "('v, 'a) Factor \<Rightarrow> bool" where
  "has_arity f \<longleftrightarrow> (\<forall>k\<in>fst ` set (cpt f). length (variables f) \<le> length k)"

section \<open>Properties of sum\_out\<close>




lemma keys_dict_set: "fst ` set (dict_set d k v) = insert k (fst ` set d)"
  by (simp add: dict_set_def dom_update)










section \<open>Properties of the evidence step\<close>

lemma fold_dict_set_fresh:
  "distinct (map fst ps) \<Longrightarrow> fst ` set ps \<inter> fst ` set d = {} \<Longrightarrow>
   fold (\<lambda>(k, v) d. dict_set d k v) ps d = d @ ps"
proof (induction ps arbitrary: d)
  case Nil
  then show ?case by simp
next
  case (Cons p ps)
  obtain k v where p: "p = (k, v)" by (cases p)
  have fresh: "k \<notin> fst ` set d" using Cons.prems(2) by (auto simp: p)
  then have upd: "dict_set d k v = d @ [(k, v)]"
    by (induction d) (auto simp: dict_set_def)
  have "fold (\<lambda>(k, v) d. dict_set d k v) ps (d @ [(k, v)]) = (d @ [(k, v)]) @ ps"
    using Cons.prems by (intro Cons.IH) (auto simp: p)
  then show ?case by (simp add: p upd)
qed

lemma dict_of_pairs_distinct: "distinct (map fst ps) \<Longrightarrow> dict_of_pairs ps = ps"
  by (simp add: dict_of_pairs_def fold_dict_set_fresh)

lemma is_consistent_agrees:
  "length vars \<le> length a \<Longrightarrow> is_consistent ev vars a = Inr (agrees ev vars a)"
proof (induction vars arbitrary: a)
  case Nil
  then show ?case by (simp add: agrees_def)
next
  case (Cons var vars)
  then obtain x rest where a: "a = x # rest" by (cases a) auto
  with Cons have IH: "is_consistent ev vars rest = Inr (agrees ev vars rest)" by simp
  show ?case by (auto simp: a IH agrees_def split: option.splits)
qed

lemma reduce_cpt_filter:
  "\<forall>k\<in>fst ` set xs. length vars \<le> length k \<Longrightarrow>
   reduce_cpt ev vars xs d =
     Inr (fold (\<lambda>(k, v) d. dict_set d k v) (filter (\<lambda>item. agrees ev vars (fst item)) xs) d)"
proof (induction xs arbitrary: d)
  case Nil
  then show ?case by simp
next
  case (Cons item xs)
  obtain a p where item: "item = (a, p)" by (cases item)
  have len: "length vars \<le> length a" using Cons.prems by (simp add: item)
  show ?case using Cons.prems
    by (simp add: item is_consistent_agrees[OF len] Cons.IH)
qed

lemma reduce_factor_filter:
  assumes arity: "\<forall>k\<in>fst ` set c. length vs \<le> length k"
      and keys: "distinct (map fst c)"
  shows "reduce_factor ev \<lparr>variables = vs, cpt = c\<rparr> =
         Inr \<lparr>variables = vs, cpt = filter (\<lambda>item. agrees ev vs (fst item)) c\<rparr>"
proof -
  have "distinct (map fst (filter (\<lambda>item. agrees ev vs (fst item)) c))"
    using keys by (simp add: distinct_map_filter)
  from fold_dict_set_fresh[OF this, of "[]"] show ?thesis
    by (simp add: reduce_factor_def reduce_cpt_filter[OF arity])
qed

lemma agrees_no_evidence:
  "\<forall>var\<in>set vars. evidence var = None \<Longrightarrow> agrees evidence vars a"
  by (auto simp: agrees_def dest: set_zip_leftD)

text \<open>
  C8. For a factor whose keys are pairwise different and have a component for every
  variable of the scope, the evidence step keeps the scope and keeps exactly the entries
  that agree with the evidence, in their order; a factor with no evidence variable in
  its scope is returned as it is; and the step applied to its own result returns that
  result again.
\<close>

theorem reduce_factor_idempotent:
  assumes arity: "\<forall>k\<in>fst ` set (cpt f). length (variables f) \<le> length k"
      and keys: "distinct (map fst (cpt f))"
  shows "\<exists>g. reduce_factor evidence f = Inr g \<and>
             variables g = variables f \<and>
             cpt g = filter (\<lambda>item. agrees evidence (variables f) (fst item)) (cpt f) \<and>
             ((\<forall>var\<in>set (variables f). evidence var = None) \<longrightarrow> g = f) \<and>
             reduce_factor evidence g = Inr g"
proof -
  let ?ok = "\<lambda>item. agrees evidence (variables f) (fst item)"
  let ?g = "\<lparr>variables = variables f, cpt = filter ?ok (cpt f)\<rparr>"
  have once: "reduce_factor evidence f = Inr ?g"
    using reduce_factor_filter[OF arity keys, of evidence] by (cases f) simp
  have twice: "reduce_factor evidence ?g = Inr ?g"
  proof -
    have a: "\<forall>k\<in>fst ` set (filter ?ok (cpt f)). length (variables f) \<le> length k"
      using arity by auto
    have d: "distinct (map fst (filter ?ok (cpt f)))"
      using keys by (simp add: distinct_map_filter)
    show ?thesis using reduce_factor_filter[OF a d, of evidence] by simp
  qed
  have same: "?g = f" if "\<forall>var\<in>set (variables f). evidence var = None"
    using agrees_no_evidence[OF that] by simp
  from once twice same show ?thesis by auto
qed

theorem reduce_factor_idempotent_witness:
  "distinct (map fst (cpt (factors ! 3))) \<and>
   reduce_factor [''G'' \<mapsto> ''A''] (factors ! 3) =
     Inr \<lparr>variables = [''D'', ''I'', ''G''],
          cpt = [([''Alta'', ''Alta'', ''A''], 0.3), ([''Alta'', ''Baja'', ''A''], 0.05),
                 ([''Baja'', ''Alta'', ''A''], 0.9), ([''Baja'', ''Baja'', ''A''], 0.5)]\<rparr> \<and>
   reduce_factor [''G'' \<mapsto> ''A'']
     \<lparr>variables = [''D'', ''I'', ''G''],
      cpt = [([''Alta'', ''Alta'', ''A''], 0.3), ([''Alta'', ''Baja'', ''A''], 0.05),
             ([''Baja'', ''Alta'', ''A''], 0.9), ([''Baja'', ''Baja'', ''A''], 0.5)]\<rparr> =
     Inr \<lparr>variables = [''D'', ''I'', ''G''],
          cpt = [([''Alta'', ''Alta'', ''A''], 0.3), ([''Alta'', ''Baja'', ''A''], 0.05),
                 ([''Baja'', ''Alta'', ''A''], 0.9), ([''Baja'', ''Baja'', ''A''], 0.5)]\<rparr>"
proof -
  have arity: "\<forall>k\<in>fst ` set (cpt (factors ! 3)). length (variables (factors ! 3)) \<le> length k"
    by (simp add: factors_def)
  have keys: "distinct (map fst (cpt (factors ! 3)))"
    by (simp add: factors_def)
  from reduce_factor_idempotent [OF arity keys, of "[''G'' \<mapsto> ''A'']"]
  obtain g where g: "reduce_factor [''G'' \<mapsto> ''A''] (factors ! 3) = Inr g"
      "variables g = variables (factors ! 3)"
      "cpt g = filter (\<lambda>item. agrees [''G'' \<mapsto> ''A''] (variables (factors ! 3)) (fst item))
                 (cpt (factors ! 3))"
      "reduce_factor [''G'' \<mapsto> ''A''] g = Inr g"
    by blast
  have "g = \<lparr>variables = [''D'', ''I'', ''G''],
          cpt = [([''Alta'', ''Alta'', ''A''], 0.3), ([''Alta'', ''Baja'', ''A''], 0.05),
                 ([''Baja'', ''Alta'', ''A''], 0.9), ([''Baja'', ''Baja'', ''A''], 0.5)]\<rparr>"
    using g(2,3) by (cases g) (simp add: factors_def agrees_def)
  with g(1,4) keys show ?thesis by simp
qed

section \<open>Properties of multiply\_factors\<close>

lemma add_assignment_Inr:
  "length vars \<le> length a \<Longrightarrow>
   \<exists>d'. add_assignment vars a d = Inr d' \<and>
        (\<forall>v. set (d' v) = set (d v) \<union> {x. (v, x) \<in> set (zip vars a)})"
proof (induction vars arbitrary: a d)
  case Nil
  then show ?case by simp
next
  case (Cons var vars)
  then obtain x rest where a: "a = x # rest" by (cases a) auto
  with Cons.prems have "length vars \<le> length rest" by simp
  from Cons.IH[OF this, of "d(var := d var @ [x])"]
  obtain d' where d': "add_assignment vars rest (d(var := d var @ [x])) = Inr d'"
    "\<forall>v. set (d' v) = set ((d(var := d var @ [x])) v) \<union> {x. (v, x) \<in> set (zip vars rest)}"
    by blast
  show ?case using d' by (auto simp: a)
qed

lemma add_assignments_Inr:
  "\<forall>k\<in>set ks. length vars \<le> length k \<Longrightarrow>
   \<exists>d'. add_assignments vars ks d = Inr d' \<and>
        (\<forall>v. set (d' v) = set (d v) \<union> {x. \<exists>k\<in>set ks. (v, x) \<in> set (zip vars k)})"
proof (induction ks arbitrary: d)
  case Nil
  then show ?case by simp
next
  case (Cons k ks)
  then have "length vars \<le> length k" by simp
  from add_assignment_Inr[OF this, of d]
  obtain d1 where d1: "add_assignment vars k d = Inr d1"
    "\<forall>v. set (d1 v) = set (d v) \<union> {x. (v, x) \<in> set (zip vars k)}" by blast
  from Cons.prems have "\<forall>k\<in>set ks. length vars \<le> length k" by simp
  from Cons.IH[OF this, of d1]
  obtain d' where d': "add_assignments vars ks d1 = Inr d'"
    "\<forall>v. set (d' v) = set (d1 v) \<union> {x. \<exists>k\<in>set ks. (v, x) \<in> set (zip vars k)}" by blast
  show ?case using d1 d' by auto
qed

lemma map_of_zip_index:
  "var \<in> set scope \<Longrightarrow> length a = length scope \<Longrightarrow>
   map_of (zip scope a) var = Some (a ! index_of scope var)"
proof (induction scope arbitrary: a)
  case Nil
  then show ?case by simp
next
  case (Cons s scope)
  then obtain x rest where a: "a = x # rest" by (cases a) auto
  show ?case using Cons by (auto simp: a index_of_def)
qed

lemma project_zip:
  "distinct scope \<Longrightarrow> length a = length scope \<Longrightarrow> set vars \<subseteq> set scope \<Longrightarrow>
   project (dict_of_pairs (zip scope a)) vars = Inr (projection scope a vars)"
proof (induction vars)
  case Nil
  then show ?case by (simp add: projection_def)
next
  case (Cons v vars)
  have dz: "dict_of_pairs (zip scope a) = zip scope a"
    using Cons.prems by (intro dict_of_pairs_distinct) (simp add: map_fst_zip_take)
  show ?case using Cons by (simp add: dz map_of_zip_index projection_def)
qed

lemma fill_cpt_fold:
  assumes "distinct new_vars" "set (variables f1) \<subseteq> set new_vars" "set (variables f2) \<subseteq> set new_vars"
  shows "\<forall>a\<in>set as. length a = length new_vars \<Longrightarrow>
   fill_cpt f1 f2 new_vars as d =
   Inr (fold (\<lambda>(k, v) d. dict_set d k v)
         (map (\<lambda>a. (a, dict_get (cpt f1) (projection new_vars a (variables f1)) 0 *
                       dict_get (cpt f2) (projection new_vars a (variables f2)) 0)) as) d)"
proof (induction as arbitrary: d)
  case Nil
  then show ?case by simp
next
  case (Cons a as)
  then have len: "length a = length new_vars" by simp
  show ?case using Cons
    by (simp add: Let_def project_zip[OF assms(1) len assms(2)] project_zip[OF assms(1) len assms(3)])
qed

text \<open>The product written out.\<close>

lemma multiply_factors_eq:
  assumes iter: "set_iteration iter"
      and arity1: "\<forall>k\<in>fst ` set (cpt f1). length (variables f1) \<le> length k"
      and arity2: "\<forall>k\<in>fst ` set (cpt f2). length (variables f2) \<le> length k"
  shows "\<exists>doms. (\<forall>v. set (doms v) = observed f1 v \<union> observed f2 v) \<and>
           multiply_factors iter f1 f2 =
             Inr \<lparr>variables = sorted_list_of_set (set (variables f1) \<union> set (variables f2)),
                  cpt = map (\<lambda>a. (a,
                           dict_get (cpt f1) (projection
                              (sorted_list_of_set (set (variables f1) \<union> set (variables f2))) a
                              (variables f1)) 0 *
                           dict_get (cpt f2) (projection
                              (sorted_list_of_set (set (variables f1) \<union> set (variables f2))) a
                              (variables f2)) 0))
                        (product_lists (map (\<lambda>var. iter (doms var))
                           (sorted_list_of_set (set (variables f1) \<union> set (variables f2)))))\<rparr>"
proof -
  let ?nv = "sorted_list_of_set (set (variables f1) \<union> set (variables f2))"
  have a1: "\<forall>k\<in>set (map fst (cpt f1)). length (variables f1) \<le> length k" using arity1 by simp
  have a2: "\<forall>k\<in>set (map fst (cpt f2)). length (variables f2) \<le> length k" using arity2 by simp
  from add_assignments_Inr[OF a1, of "\<lambda>var. []"]
  obtain d1 where d1: "add_assignments (variables f1) (map fst (cpt f1)) (\<lambda>var. []) = Inr d1"
    "\<forall>v. set (d1 v) = {x. \<exists>k\<in>set (map fst (cpt f1)). (v, x) \<in> set (zip (variables f1) k)}"
    by auto
  from add_assignments_Inr[OF a2, of d1]
  obtain d2 where d2: "add_assignments (variables f2) (map fst (cpt f2)) d1 = Inr d2"
    "\<forall>v. set (d2 v) = set (d1 v) \<union> {x. \<exists>k\<in>set (map fst (cpt f2)). (v, x) \<in> set (zip (variables f2) k)}"
    by blast
  have doms: "\<forall>v. set (d2 v) = observed f1 v \<union> observed f2 v"
    using d1(2) d2(2) by (simp add: observed_def)
  let ?as = "product_lists (map (\<lambda>var. iter (d2 var)) ?nv)"
  have dnv: "distinct ?nv" by simp
  have s1: "set (variables f1) \<subseteq> set ?nv" by simp
  have s2: "set (variables f2) \<subseteq> set ?nv" by simp
  have len: "\<forall>a\<in>set ?as. length a = length ?nv"
    by (auto dest: in_set_product_lists_length)
  have das: "distinct ?as"
    using iter by (intro distinct_product_lists) (auto simp: set_iteration_def)
  let ?val = "\<lambda>a. (a, dict_get (cpt f1) (projection ?nv a (variables f1)) 0 *
                       dict_get (cpt f2) (projection ?nv a (variables f2)) 0)"
  have "distinct (map fst (map ?val ?as))" using das by (simp add: comp_def)
  from fold_dict_set_fresh[OF this, of "[]"]
  have fill: "fill_cpt f1 f2 ?nv ?as [] = Inr (map ?val ?as)"
    by (simp add: fill_cpt_fold[OF dnv s1 s2 len])
  have "multiply_factors iter f1 f2 = Inr \<lparr>variables = ?nv, cpt = map ?val ?as\<rparr>"
    by (simp add: multiply_factors_def Let_def d1(1) d2(1) fill)
  with doms show ?thesis by blast
qed

text \<open>
  C2. For two factors whose keys have a component for every variable of their scope, and
  whatever the order in which Python iterates its sets, the product is a factor whose
  scope is the sorted union of the two scopes, whose keys are, each once, the joint
  assignments over that scope that take each variable in the values observed for it in
  either table, and whose weight at an assignment is the product of the two entries at
  its projections, an absent key counting as 0.
\<close>

theorem multiply_factors_spec:
  assumes iter: "set_iteration iter"
      and arity1: "\<forall>k\<in>fst ` set (cpt f1). length (variables f1) \<le> length k"
      and arity2: "\<forall>k\<in>fst ` set (cpt f2). length (variables f2) \<le> length k"
  shows "\<exists>g. multiply_factors iter f1 f2 = Inr g \<and>
           variables g = sorted_list_of_set (set (variables f1) \<union> set (variables f2)) \<and>
           distinct (map fst (cpt g)) \<and>
           fst ` set (cpt g) =
             {a. length a = length (variables g) \<and>
                 (\<forall>i<length a. a ! i \<in> observed f1 (variables g ! i) \<union>
                                         observed f2 (variables g ! i))} \<and>
           (\<forall>a\<in>fst ` set (cpt g).
              map_of (cpt g) a =
                Some (dict_get (cpt f1) (projection (variables g) a (variables f1)) 0 *
                      dict_get (cpt f2) (projection (variables g) a (variables f2)) 0))"
proof -
  let ?nv = "sorted_list_of_set (set (variables f1) \<union> set (variables f2))"
  let ?val = "\<lambda>a. dict_get (cpt f1) (projection ?nv a (variables f1)) 0 *
                   dict_get (cpt f2) (projection ?nv a (variables f2)) 0"
  from multiply_factors_eq[OF assms]
  obtain doms where doms: "\<forall>v. set (doms v) = observed f1 v \<union> observed f2 v"
    and eq: "multiply_factors iter f1 f2 =
       Inr \<lparr>variables = ?nv,
            cpt = map (\<lambda>a. (a, ?val a)) (product_lists (map (\<lambda>var. iter (doms var)) ?nv))\<rparr>"
    by blast
  let ?as = "product_lists (map (\<lambda>var. iter (doms var)) ?nv)"
  let ?g = "\<lparr>variables = ?nv, cpt = map (\<lambda>a. (a, ?val a)) ?as\<rparr>"
  have it: "\<And>h. set (iter h) = set h" "\<And>h. distinct (iter h)"
    using iter by (auto simp: set_iteration_def)
  have das: "distinct ?as"
    by (intro distinct_product_lists) (auto simp: it)
  have keys: "fst ` set (cpt ?g) = set ?as" by (simp add: image_comp comp_def)
  have set_as: "set ?as = {a. length a = length ?nv \<and>
        (\<forall>i<length a. a ! i \<in> observed f1 (?nv ! i) \<union> observed f2 (?nv ! i))}"
    by (auto simp: product_lists_set list_all2_conv_all_nth it doms)
  have vals: "\<forall>a\<in>set ?as. map_of (cpt ?g) a = Some (?val a)"
    by (simp add: map_of_map_restrict)
  have "distinct (map fst (cpt ?g))" using das by (simp add: comp_def)
  with eq keys set_as vals show ?thesis by (intro exI[of _ ?g]) simp
qed

theorem multiply_factors_spec_witness:
  "set_iteration (insertion_order :: string list \<Rightarrow> string list) \<and>
   (\<exists>g. multiply_factors insertion_order (factors ! 1) (factors ! 2) = Inr g \<and>
        variables g = [''I'', ''L''] \<and>
        map_of (cpt g) [''Baja'', ''Fuerte''] = Some (9 / 100))"
proof -
  have iter: "set_iteration (insertion_order :: string list \<Rightarrow> string list)"
    by (simp add: set_iteration_def insertion_order_def)
  have arity1: "\<forall>k\<in>fst ` set (cpt (factors ! 1)). length (variables (factors ! 1)) \<le> length k"
    by (simp add: factors_def)
  have arity2: "\<forall>k\<in>fst ` set (cpt (factors ! 2)). length (variables (factors ! 2)) \<le> length k"
    by (simp add: factors_def)
  from multiply_factors_spec [OF iter arity1 arity2]
  obtain g where g: "multiply_factors insertion_order (factors ! 1) (factors ! 2) = Inr g"
    and vars: "variables g = sorted_list_of_set (set (variables (factors ! 1)) \<union> set (variables (factors ! 2)))"
    and keys: "fst ` set (cpt g) =
             {a. length a = length (variables g) \<and>
                 (\<forall>i<length a. a ! i \<in> observed (factors ! 1) (variables g ! i) \<union>
                                         observed (factors ! 2) (variables g ! i))}"
    and vals: "\<forall>a\<in>fst ` set (cpt g).
              map_of (cpt g) a =
                Some (dict_get (cpt (factors ! 1)) (projection (variables g) a (variables (factors ! 1))) 0 *
                      dict_get (cpt (factors ! 2)) (projection (variables g) a (variables (factors ! 2))) 0)"
    by blast
  have v: "variables g = [''I'', ''L'']"
    unfolding vars by (simp add: factors_def) code_simp
  have "[''Baja'', ''Fuerte''] \<in> fst ` set (cpt g)"
    unfolding keys v by (simp add: observed_def factors_def less_Suc_eq)
  from vals[rule_format, OF this]
  have "map_of (cpt g) [''Baja'', ''Fuerte''] = Some (9 / 100)"
    unfolding v by (simp add: factors_def projection_def index_of_def dict_get_def Debil_def)
  with iter g v show ?thesis by blast
qed

section \<open>The calls of infer on concrete inputs\<close>

text \<open>
  C4. The call of the script, \<open>infer('L', {'G': 'A'}, ['D', 'I'])\<close>: the final factor has
  the scope \<open>('G', 'L')\<close>, so \<open>key[0]\<close> is the value of the evidence variable for both
  entries, and the mapping returned has the single key \<open>'A'\<close>, with the normalised weight
  of the entry iterated last: 413/1490 when \<open>'D\'ebil'\<close> comes last, 1077/1490 when
  \<open>'Fuerte'\<close> does. The values do not sum to 1 and the keys are not values of \<open>L\<close>.
\<close>

theorem infer_script_call:
  "infer insertion_order factors ''L'' [''G'' \<mapsto> ''A''] [''D'', ''I''] =
     Inr [(''A'', 413 / 1490)] \<and>
   infer sorted_order factors ''L'' [''G'' \<mapsto> ''A''] [''D'', ''I''] =
     Inr [(''A'', 1077 / 1490)]"
  by code_simp

text \<open>
  C1. On \<open>order_model\<close>, with the query \<open>Z\<close> and the evidence \<open>E = 0\<close>, the two elimination
  orders of the hidden variables \<open>A\<close> and \<open>B\<close> return different mappings: the final factor
  has the scope \<open>('E', 'Z')\<close>, its two entries collapse on the key \<open>key[0] = 0\<close>, and which
  one is written last depends on the order in which the factors were combined.
\<close>

theorem infer_order_dependent:
  "infer insertion_order order_model ''Z'' [''E'' \<mapsto> 0] [''A'', ''B''] = Inr [(0, 9 / 20)] \<and>
   infer insertion_order order_model ''Z'' [''E'' \<mapsto> 0] [''B'', ''A''] = Inr [(0, 11 / 20)]"
  by code_simp

text \<open>
  C5. An elimination order that names a variable of no factor: \<open>factors_with_var[0]\<close>
  raises IndexError, where the order without that variable returns a mapping.
\<close>

theorem infer_absent_variable:
  "infer insertion_order factors ''L'' [''G'' \<mapsto> ''A''] [''D'', ''X'', ''I''] = Inl IndexError \<and>
   infer insertion_order factors ''L'' [''G'' \<mapsto> ''A''] [''D'', ''I''] = Inr [(''A'', 413 / 1490)]"
  by code_simp

text \<open>
  C6, as stated, fails: with the evidence \<open>G = 'C'\<close>, a value of no table, the final factor
  has an empty table, the divisor is the empty sum 0, and the call returns the empty
  mapping without any error.
\<close>

theorem infer_zero_total_counterexample:
  "final_factor insertion_order factors [''G'' \<mapsto> ''C''] [''D'', ''I''] =
     Inr \<lparr>variables = [''G'', ''L''], cpt = []\<rparr> \<and>
   infer insertion_order factors ''L'' [''G'' \<mapsto> ''C''] [''D'', ''I''] = Inr []"
  by code_simp

text \<open>
  C7, as stated, fails: the order \<open>['D']\<close> omits the hidden variable \<open>I\<close>, and the call
  returns a mapping without any error.
\<close>

theorem infer_unvalidated_counterexample:
  "infer insertion_order factors ''L'' [''G'' \<mapsto> ''A''] [''D''] = Inr [(''A'', 161 / 1490)]"
  by code_simp

section \<open>The query of 004\_InterEnumeracion.py\<close>

text \<open>
  C9, as stated, fails: the query \<open>P(Robo | JuanLlama = 'Si')\<close> of the script returns
  1715/118598 for \<open>'Si'\<close>, which is below 0.0145 and so not 0.0174 to any of its digits.
\<close>

theorem consultar_alarma_counterexample:
  "consultar ESTRUCTURA_ALARMA ''Robo'' [''JuanLlama'' \<mapsto> ''Si''] =
     Inr [(''Si'', 1715 / 118598), (''No'', 116883 / 118598)] \<and>
   (1715 / 118598 :: real) < 0.0145"
  by code_simp

text \<open>
  C9, amended. The query returns the value that the tables give by hand,
  \<open>0.001 * 0.8575 / (0.001 * 0.8575 + 0.999 * 0.0585) = 1715/118598\<close>, which is 0.01446
  to five decimal places, and the two values returned sum to 1.
\<close>

theorem consultar_alarma:
  "\<exists>p q. consultar ESTRUCTURA_ALARMA ''Robo'' [''JuanLlama'' \<mapsto> ''Si''] =
           Inr [(''Si'', p), (''No'', q)] \<and>
         p = 0.001 * 0.8575 / (0.001 * 0.8575 + 0.999 * 0.0585) \<and>
         p = 1715 / 118598 \<and> \<bar>p - 0.01446\<bar> < 0.000005 \<and> p + q = 1"
proof -
  have "consultar ESTRUCTURA_ALARMA ''Robo'' [''JuanLlama'' \<mapsto> ''Si''] =
          Inr [(''Si'', 1715 / 118598), (''No'', 116883 / 118598)]"
    by code_simp
  then show ?thesis
    by (intro exI[of _ "1715 / 118598"] exI[of _ "116883 / 118598"]) simp
qed

section \<open>The normalisation\<close>

lemma normalise_distinct_first:
  assumes "total' \<noteq> 0" "\<forall>key\<in>fst ` set items. key \<noteq> []"
      and "distinct (map (\<lambda>item. hd (fst item)) items)"
      and "hd ` fst ` set items \<inter> fst ` set d = {}"
  shows "normalise total' items d = Inr (d @ map (\<lambda>item. (hd (fst item), snd item / total')) items)"
  using assms
proof (induction items arbitrary: d)
  case Nil
  then show ?case by simp
next
  case (Cons item items)
  obtain key val where item: "item = (key, val)" by (cases item)
  with Cons.prems obtain k0 rest where key: "key = k0 # rest" by (cases key) auto
  have fresh: "k0 \<notin> fst ` set d" using Cons.prems(4) by (auto simp: item key)
  then have upd: "dict_set d k0 (val / total') = d @ [(k0, val / total')]"
    by (induction d) (auto simp: dict_set_def)
  have "normalise total' items (d @ [(k0, val / total')]) =
        Inr ((d @ [(k0, val / total')]) @ map (\<lambda>item. (hd (fst item), snd item / total')) items)"
    using Cons.prems by (intro Cons.IH) (auto simp: item key)
  then show ?case using Cons.prems(1) by (simp add: item key upd)
qed

lemma sum_list_divide:
  "sum_list (map (\<lambda>item. snd item / c) xs) = sum_list (map snd xs) / (c::real)"
  by (induction xs) (simp_all add: add_divide_distrib)

text \<open>
  Where the first components of the keys of the final factor are pairwise different (as
  they are when its scope is the query variable alone), the mapping returned holds each
  normalised weight under its \<open>key[0]\<close>, and its values sum to 1.
\<close>

lemma infer_sums_to_one:
  assumes final: "final_factor iter fs evidence order = Inr final"
      and total: "sum_list (map snd (cpt final)) \<noteq> 0"
      and keys: "\<forall>key\<in>fst ` set (cpt final). key \<noteq> []"
      and first: "distinct (map (\<lambda>item. hd (fst item)) (cpt final))"
  shows "\<exists>result. infer iter fs q evidence order = Inr result \<and>
           result = map (\<lambda>item. (hd (fst item), snd item / sum_list (map snd (cpt final)))) (cpt final) \<and>
           sum_list (map snd result) = 1"
proof -
  let ?t = "sum_list (map snd (cpt final))"
  have "normalise ?t (cpt final) [] =
        Inr ([] @ map (\<lambda>item. (hd (fst item), snd item / ?t)) (cpt final))"
    using total keys first by (intro normalise_distinct_first) auto
  moreover have "sum_list (map snd (map (\<lambda>item. (hd (fst item), snd item / ?t)) (cpt final))) = 1"
  proof -
    have "sum_list (map (\<lambda>item. snd item / ?t) (cpt final)) = sum_list (map snd (cpt final)) / ?t"
      by (rule sum_list_divide)
    then show ?thesis using total by (simp add: comp_def)
  qed
  ultimately show ?thesis by (simp add: infer_def final)
qed

lemma normalise_Inr:
  "total' \<noteq> 0 \<Longrightarrow> \<forall>key\<in>fst ` set items. key \<noteq> [] \<Longrightarrow> \<exists>r. normalise total' items d = Inr r"
proof (induction items arbitrary: d)
  case Nil
  then show ?case by simp
next
  case (Cons item items)
  obtain key val where item: "item = (key, val)" by (cases item)
  with Cons.prems obtain k0 rest where key: "key = k0 # rest" by (cases key) auto
  show ?case using Cons by (simp add: item key)
qed

lemma normalise_zero:
  "items \<noteq> [] \<Longrightarrow> \<forall>key\<in>fst ` set items. key \<noteq> [] \<Longrightarrow> normalise 0 items d = Inl ZeroDivisionError"
  by (cases items) (auto split: list.splits)

text \<open>
  C6, amended. Let the steps before the normalisation return a final factor whose table
  has at least one entry and whose keys are not empty tuples. If the divisor is zero,
  infer raises ZeroDivisionError and returns nothing; a divisor other than zero, however
  small, gives a mapping.
\<close>

theorem infer_zero_total:
  assumes final: "final_factor iter fs evidence order = Inr final"
      and entries: "cpt final \<noteq> []"
      and keys: "\<forall>key\<in>fst ` set (cpt final). key \<noteq> []"
  shows "(sum_list (map snd (cpt final)) = 0 \<longrightarrow>
            infer iter fs q evidence order = Inl ZeroDivisionError) \<and>
         (sum_list (map snd (cpt final)) \<noteq> 0 \<longrightarrow>
            (\<exists>result. infer iter fs q evidence order = Inr result))"
  using normalise_Inr[OF _ keys, of "sum_list (map snd (cpt final))" "[]"]
        normalise_zero[OF entries keys, of "[]"]
  by (auto simp: infer_def final)

theorem infer_zero_total_witness:
  "final_factor insertion_order zero_model [''B'' \<mapsto> ''t''] [] =
     Inr \<lparr>variables = [''A'', ''B''], cpt = [([''t'', ''t''], 0), ([''f'', ''t''], 0)]\<rparr> \<and>
   infer insertion_order zero_model ''A'' [''B'' \<mapsto> ''t''] [] = Inl ZeroDivisionError"
proof -
  let ?final = "\<lparr>variables = [''A'', ''B''], cpt = [([''t'', ''t''], 0), ([''f'', ''t''], 0)]\<rparr> :: (string, string) Factor"
  have final: "final_factor insertion_order zero_model [''B'' \<mapsto> ''t''] [] = Inr ?final"
    by code_simp
  have entries: "cpt ?final \<noteq> []" by simp
  have keys: "\<forall>key\<in>fst ` set (cpt ?final). key \<noteq> []" by simp
  from infer_zero_total [OF final entries keys, of "''A''"] final show ?thesis by simp
qed

section \<open>The elimination loop\<close>

text \<open>A variable of no working factor stops the loop with IndexError, for every input.\<close>

lemma eliminate_absent:
  "\<forall>f\<in>set ws. v \<notin> set (variables f) \<Longrightarrow> eliminate iter (v # order) ws = Inl IndexError"
  by (simp add: multiply_all_def filter_empty_conv[THEN iffD2])

lemma keys_fold_dict_set:
  "fst ` set (fold (\<lambda>(k, v) d. dict_set d k v) ps d) = fst ` set d \<union> fst ` set ps"
proof (induction ps arbitrary: d)
  case Nil
  then show ?case by simp
next
  case (Cons p ps)
  obtain k v where p: "p = (k, v)" by (cases p)
  show ?case by (simp add: p Cons.IH keys_dict_set)
qed

lemma reduce_factor_arity:
  assumes "has_arity f"
  shows "\<exists>g. reduce_factor ev f = Inr g \<and> variables g = variables f \<and> has_arity g"
proof -
  have a: "\<forall>k\<in>fst ` set (cpt f). length (variables f) \<le> length k"
    using assms by (simp add: has_arity_def)
  let ?c = "fold (\<lambda>(k, v) d. dict_set d k v)
              (filter (\<lambda>item. agrees ev (variables f) (fst item)) (cpt f)) []"
  have "reduce_factor ev f = Inr \<lparr>variables = variables f, cpt = ?c\<rparr>"
    by (simp add: reduce_factor_def reduce_cpt_filter[OF a])
  moreover have "has_arity \<lparr>variables = variables f, cpt = ?c\<rparr>"
    using a by (auto simp: has_arity_def keys_fold_dict_set)
  ultimately show ?thesis by simp
qed

lemma apply_evidence_arity:
  "\<forall>f\<in>set fs. has_arity f \<Longrightarrow>
   \<exists>ws. apply_evidence ev fs = Inr ws \<and> map variables ws = map variables fs \<and>
        (\<forall>g\<in>set ws. has_arity g)"
proof (induction fs)
  case Nil
  then show ?case by simp
next
  case (Cons f fs)
  then have "has_arity f" by simp
  from reduce_factor_arity[OF this, of ev]
  obtain g where g: "reduce_factor ev f = Inr g" "variables g = variables f" "has_arity g"
    by blast
  from Cons obtain ws where ws: "apply_evidence ev fs = Inr ws"
    "map variables ws = map variables fs" "\<forall>g\<in>set ws. has_arity g" by auto
  show ?case using g ws by simp
qed

lemma multiply_factors_arity:
  assumes "has_arity f1" "has_arity f2"
  shows "\<exists>g. multiply_factors iter f1 f2 = Inr g \<and>
             variables g = sorted_list_of_set (set (variables f1) \<union> set (variables f2)) \<and>
             has_arity g"
proof -
  let ?nv = "sorted_list_of_set (set (variables f1) \<union> set (variables f2))"
  have a1: "\<forall>k\<in>set (map fst (cpt f1)). length (variables f1) \<le> length k"
    using assms(1) by (simp add: has_arity_def)
  have a2: "\<forall>k\<in>set (map fst (cpt f2)). length (variables f2) \<le> length k"
    using assms(2) by (simp add: has_arity_def)
  from add_assignments_Inr[OF a1, of "\<lambda>var. []"]
  obtain d1 where d1: "add_assignments (variables f1) (map fst (cpt f1)) (\<lambda>var. []) = Inr d1"
    by blast
  from add_assignments_Inr[OF a2, of d1]
  obtain d2 where d2: "add_assignments (variables f2) (map fst (cpt f2)) d1 = Inr d2"
    by blast
  let ?as = "product_lists (map (\<lambda>var. iter (d2 var)) ?nv)"
  let ?val = "\<lambda>a. (a, dict_get (cpt f1) (projection ?nv a (variables f1)) 0 *
                       dict_get (cpt f2) (projection ?nv a (variables f2)) 0)"
  let ?c = "fold (\<lambda>(k, v) d. dict_set d k v) (map ?val ?as) []"
  have dnv: "distinct ?nv" by simp
  have s1: "set (variables f1) \<subseteq> set ?nv" by simp
  have s2: "set (variables f2) \<subseteq> set ?nv" by simp
  have len: "\<forall>a\<in>set ?as. length a = length ?nv"
    by (auto dest: in_set_product_lists_length)
  have fill: "fill_cpt f1 f2 ?nv ?as [] = Inr ?c"
    by (rule fill_cpt_fold[OF dnv s1 s2 len])
  have eq: "multiply_factors iter f1 f2 = Inr \<lparr>variables = ?nv, cpt = ?c\<rparr>"
    by (simp add: multiply_factors_def Let_def d1 d2 fill)
  have "fst ` set ?c = set ?as"
    by (simp add: keys_fold_dict_set image_comp comp_def)
  with len have "has_arity \<lparr>variables = ?nv, cpt = ?c\<rparr>"
    by (simp add: has_arity_def)
  with eq show ?thesis by simp
qed

lemma multiply_from_arity:
  "has_arity p \<Longrightarrow> \<forall>f\<in>set fs. has_arity f \<Longrightarrow>
   \<exists>g. multiply_from iter p fs = Inr g \<and>
       set (variables g) = set (variables p) \<union> (\<Union>f\<in>set fs. set (variables f)) \<and>
       has_arity g"
proof (induction fs arbitrary: p)
  case Nil
  then show ?case by simp
next
  case (Cons f fs)
  then have "has_arity f" by simp
  from multiply_factors_arity[OF Cons.prems(1) this, of iter]
  obtain p' where p': "multiply_factors iter p f = Inr p'"
    "variables p' = sorted_list_of_set (set (variables p) \<union> set (variables f))"
    "has_arity p'" by blast
  from Cons.prems have "\<forall>f\<in>set fs. has_arity f" by simp
  from Cons.IH[OF p'(3) this]
  obtain g where g: "multiply_from iter p' fs = Inr g"
    "set (variables g) = set (variables p') \<union> (\<Union>f\<in>set fs. set (variables f))"
    "has_arity g" by blast
  show ?case using p' g by auto
qed

lemma multiply_all_arity:
  assumes "fs \<noteq> []" "\<forall>f\<in>set fs. has_arity f"
  shows "\<exists>g. multiply_all iter fs = Inr g \<and>
             set (variables g) = (\<Union>f\<in>set fs. set (variables f)) \<and> has_arity g"
proof -
  from assms(1) obtain f rest where fs: "fs = f # rest" by (cases fs) auto
  with assms(2) have "has_arity f" "\<forall>f\<in>set rest. has_arity f" by simp_all
  from multiply_from_arity[OF this, of iter] show ?thesis
    by (simp add: multiply_all_def fs)
qed

lemma keys_sum_out_loop:
  "fst ` set (sum_out_loop i xs d) = fst ` set d \<union> drop_component i ` fst ` set xs"
proof (induction xs arbitrary: d)
  case Nil
  then show ?case by simp
next
  case (Cons item xs)
  obtain a p where item: "item = (a, p)" by (cases item)
  show ?case by (simp add: item Cons.IH Let_def keys_dict_set)
qed

lemma index_of_less: "v \<in> set vars \<Longrightarrow> index_of vars v < length vars"
  by (induction vars) (auto simp: index_of_def)

lemma variables_sum_out: "set (variables (sum_out f v)) = set (variables f) - {v}"
  by (auto simp: sum_out_def Let_def)

lemma sum_out_arity:
  assumes "has_arity f"
  shows "has_arity (sum_out f v)"
proof (cases "v \<in> set (variables f)")
  case False
  with assms show ?thesis by (simp add: sum_out_def)
next
  case True
  let ?i = "index_of (variables f) v"
  have i: "?i < length (variables f)" using True by (rule index_of_less)
  have short: "length (filter (\<lambda>x. x \<noteq> v) (variables f)) < length (variables f)"
    using True by (intro length_filter_less[of v]) auto
  have "length (filter (\<lambda>x. x \<noteq> v) (variables f)) \<le> length (drop_component ?i k)"
    if "k \<in> fst ` set (cpt f)" for k
  proof -
    from assms that have "length (variables f) \<le> length k" by (auto simp: has_arity_def)
    with i short show ?thesis by (simp add: drop_component_def)
  qed
  then show ?thesis using True
    by (auto simp: has_arity_def sum_out_def Let_def keys_sum_out_loop)
qed

lemma eliminate_arity:
  "\<forall>f\<in>set ws. has_arity f \<Longrightarrow> distinct order \<Longrightarrow>
   set order \<subseteq> (\<Union>f\<in>set ws. set (variables f)) \<Longrightarrow>
   \<exists>ws'. eliminate iter order ws = Inr ws' \<and> (\<forall>f\<in>set ws'. has_arity f) \<and>
         (\<Union>f\<in>set ws'. set (variables f)) = (\<Union>f\<in>set ws. set (variables f)) - set order \<and>
         (ws \<noteq> [] \<longrightarrow> ws' \<noteq> [])"
proof (induction order arbitrary: ws)
  case Nil
  then show ?case by simp
next
  case (Cons v order)
  let ?with = "filter (\<lambda>f. v \<in> set (variables f)) ws"
  let ?without = "filter (\<lambda>f. v \<notin> set (variables f)) ws"
  from Cons.prems(3) have "?with \<noteq> []" by (auto simp: filter_empty_conv)
  moreover have "\<forall>f\<in>set ?with. has_arity f" using Cons.prems(1) by simp
  ultimately obtain p where p: "multiply_all iter ?with = Inr p"
    "set (variables p) = (\<Union>f\<in>set ?with. set (variables f))" "has_arity p"
    using multiply_all_arity[of ?with iter] by blast
  let ?ws1 = "?without @ [sum_out p v]"
  have vars1: "(\<Union>f\<in>set ?ws1. set (variables f)) = (\<Union>f\<in>set ws. set (variables f)) - {v}"
    using p(2) by (auto simp: variables_sum_out)
  have ar1: "\<forall>f\<in>set ?ws1. has_arity f"
    using Cons.prems(1) sum_out_arity[OF p(3)] by auto
  have d1: "distinct order" using Cons.prems(2) by simp
  have sub1: "set order \<subseteq> (\<Union>f\<in>set ?ws1. set (variables f))"
    unfolding vars1 using Cons.prems(2,3) by auto
  from Cons.IH[OF ar1 d1 sub1]
  obtain ws' where ws': "eliminate iter order ?ws1 = Inr ws'" "\<forall>f\<in>set ws'. has_arity f"
    "(\<Union>f\<in>set ws'. set (variables f)) = (\<Union>f\<in>set ?ws1. set (variables f)) - set order"
    "ws' \<noteq> []" by auto
  have "eliminate iter (v # order) ws = Inr ws'"
    by (simp add: Let_def p(1) ws'(1))
  moreover have "(\<Union>f\<in>set ws'. set (variables f)) =
      (\<Union>f\<in>set ws. set (variables f)) - set (v # order)"
    unfolding ws'(3) vars1 by auto
  ultimately show ?case using ws'(2,4) by blast
qed

text \<open>
  C7, amended. infer does not check the elimination order. For a non-empty list of
  factors whose keys have a component for every variable of their scope, any order
  without repetition that names variables of the model only, whether or not it names
  every hidden variable, and whatever the query and the evidence are, passes the
  evidence step, the elimination loop and the final product without an error; the final
  factor ranges over the variables of the model that the order does not name.
\<close>

theorem final_factor_unvalidated:
  assumes nonempty: "fs \<noteq> []"
      and arity: "\<forall>f\<in>set fs. has_arity f"
      and order: "distinct order" "set order \<subseteq> (\<Union>f\<in>set fs. set (variables f))"
  shows "\<exists>final. final_factor iter fs evidence order = Inr final \<and>
           set (variables final) = (\<Union>f\<in>set fs. set (variables f)) - set order"
proof -
  from apply_evidence_arity[OF arity, of evidence]
  obtain ws where ws: "apply_evidence evidence fs = Inr ws"
    "map variables ws = map variables fs" "\<forall>g\<in>set ws. has_arity g" by blast
  have vars: "(\<Union>f\<in>set ws. set (variables f)) = (\<Union>f\<in>set fs. set (variables f))"
  proof -
    have "(\<Union>f\<in>set ws. set (variables f)) = \<Union> (set ` set (map variables ws))" by simp
    also have "\<dots> = \<Union> (set ` set (map variables fs))" by (simp only: ws(2))
    also have "\<dots> = (\<Union>f\<in>set fs. set (variables f))" by simp
    finally show ?thesis .
  qed
  have ne: "ws \<noteq> []" using ws(2) nonempty by auto
  from eliminate_arity[OF ws(3) order(1), of iter] order(2) vars ne
  obtain ws' where ws': "eliminate iter order ws = Inr ws'" "\<forall>f\<in>set ws'. has_arity f"
    "(\<Union>f\<in>set ws'. set (variables f)) = (\<Union>f\<in>set fs. set (variables f)) - set order"
    "ws' \<noteq> []" by auto
  from multiply_all_arity[OF ws'(4) ws'(2), of iter]
  obtain final where "multiply_all iter ws' = Inr final"
    "set (variables final) = (\<Union>f\<in>set ws'. set (variables f))" by blast
  then show ?thesis by (simp add: final_factor_def ws(1) ws'(1) ws'(3))
qed

theorem final_factor_unvalidated_witness:
  "distinct [''D''] \<and>
   (\<exists>final. final_factor insertion_order factors [''G'' \<mapsto> ''A''] [''D''] = Inr final \<and>
      set (variables final) = {''G'', ''I'', ''L''})"
proof -
  have nonempty: "factors \<noteq> []" by (simp add: factors_def)
  have arity: "\<forall>f\<in>set factors. has_arity f" by (simp add: factors_def has_arity_def)
  have order: "distinct [''D'']" "set [''D''] \<subseteq> (\<Union>f\<in>set factors. set (variables f))"
    by (simp_all add: factors_def)
  from final_factor_unvalidated [OF nonempty arity order, of insertion_order "[''G'' \<mapsto> ''A'']"]
  obtain final where final: "final_factor insertion_order factors [''G'' \<mapsto> ''A''] [''D''] = Inr final"
    "set (variables final) = (\<Union>f\<in>set factors. set (variables f)) - set [''D'']"
    by blast
  have "(\<Union>f\<in>set factors. set (variables f)) - set [''D''] = {''G'', ''I'', ''L''}"
    by (auto simp: factors_def)
  with final show ?thesis by auto
qed

end
